theory Spec2Isabelle
  imports Complex_Main "HOL-Library.Multiset"
begin

section \<open>Student dropout on a school network: the simulation engine\<close>

text \<open>
  A shallow embedding of \<^verbatim>\<open>student_agent.py\<close> and \<^verbatim>\<open>school_model.py\<close>.

  Conventions of the embedding:
  \<^item> Python floats are real numbers: arithmetic is exact, rounding is not modelled.
  \<^item> Exceptions are values of \<open>error + 'a\<close>, with \<open>Inl\<close> the exception.
  \<^item> Agents are objects shared by the scheduler and the grid. The model keeps them once,
    in the list \<open>agents\<close> (the scheduler's agents in insertion order); the content of a
    grid node is read off the agents' \<open>pos\<close> field.
  \<^item> Random numbers are inputs. A call \<^verbatim>\<open>np.random.normal(loc, scale)\<close> is
    \<open>loc + scale * z\<close> for a standard normal sample \<open>z\<close>; \<^verbatim>\<open>np.random.rand()\<close> is
    a sample \<open>u\<close>; a shuffle is the Fisher-Yates loop of the library over integer samples.
    The theorems hold for every value of these samples.
  \<^item> The graph generator \<^verbatim>\<open>nx.watts_strogatz_graph\<close> belongs to a library and is a
    parameter of the constructor.
\<close>

subsection \<open>Data\<close>

datatype error =
  IndexError | ZeroDivisionError | ValueError | AttributeError | KeyError | NetworkXError

text \<open>The two values the \<^verbatim>\<open>status\<close> string takes: \<^verbatim>\<open>'Attending'\<close> and \<^verbatim>\<open>'Dropped Out'\<close>.\<close>

datatype status = Attending | DroppedOut

definition LOW_SES :: nat where "LOW_SES = 0"
definition MEDIUM_SES :: nat where "MEDIUM_SES = 1"
definition HIGH_SES :: nat where "HIGH_SES = 2"

record StudentAgent =
  unique_id :: nat
  pos :: "nat option"
  performance :: real
  ses :: nat
  status :: status

text \<open>A networkx graph: its nodes in insertion order and the neighbours of each node.\<close>

record Graph =
  nodes :: "nat list"
  adj :: "nat \<Rightarrow> nat list"

text \<open>One row of the data collector's model variables, and one row of its agent table.\<close>

record model_row =
  total_dropout_rate :: real
  low_ses_dropout_rate :: real
  medium_ses_dropout_rate :: real
  high_ses_dropout_rate :: real
  financial_aid_policy_var :: bool
  peer_influence_weight_var :: real

record agent_row =
  agent_id :: nat
  performance_var :: real
  status_var :: status
  ses_var :: nat

record SchoolModel =
  running :: bool
  n_agents :: nat
  steps :: nat
  base_dropout_rate :: real
  peer_influence_weight :: real
  performance_volatility :: real
  financial_aid_policy :: bool
  G :: Graph
  agents :: "StudentAgent list"
  model_vars :: "model_row list"
  agent_records :: "agent_row list list"

definition PERFORMANCE_THRESHOLD :: real where "PERFORMANCE_THRESHOLD = 60"
definition INITIAL_PERFORMANCE_MEAN :: real where "INITIAL_PERFORMANCE_MEAN = 75"
definition INITIAL_PERFORMANCE_STD :: real where "INITIAL_PERFORMANCE_STD = 10"
definition FINANCIAL_AID_EFFECTIVENESS :: real where "FINANCIAL_AID_EFFECTIVENESS = 0.4"

subsection \<open>Library calls\<close>

text \<open>\<^verbatim>\<open>np.clip(x, a_min, a_max)\<close> is \<^verbatim>\<open>minimum(maximum(x, a_min), a_max)\<close>.\<close>

definition np_clip :: "real \<Rightarrow> real \<Rightarrow> real \<Rightarrow> real" where
  "np_clip x a_min a_max = min (max x a_min) a_max"

text \<open>\<^verbatim>\<open>np.random.normal(loc, scale)\<close> with the standard normal sample \<open>z\<close>; a negative
  scale is rejected.\<close>

definition np_random_normal :: "real \<Rightarrow> real \<Rightarrow> real \<Rightarrow> error + real" where
  "np_random_normal loc scale z = (if scale < 0 then Inl ValueError else Inr (loc + scale * z))"

text \<open>Python's \<^verbatim>\<open>int(x)\<close> on a float truncates towards zero.\<close>

definition py_int :: "real \<Rightarrow> int" where
  "py_int x = (if 0 \<le> x then \<lfloor>x\<rfloor> else \<lceil>x\<rceil>)"

text \<open>
  \<^verbatim>\<open>shuffle(x)\<close>, of \<^verbatim>\<open>random\<close> and of \<^verbatim>\<open>np.random\<close> alike:
  \<^verbatim>\<open>for i in reversed(range(1, len(x))): j = <sample in [0, i]>; x[i], x[j] = x[j], x[i]\<close>.
  The sample for position \<open>i\<close> is \<open>d i\<close> reduced to the range.
\<close>

fun shuffle_from :: "nat \<Rightarrow> (nat \<Rightarrow> nat) \<Rightarrow> 'a list \<Rightarrow> 'a list" where
  "shuffle_from 0 d x = x"
| "shuffle_from (Suc i) d x =
     (let j = d (Suc i) mod (Suc (Suc i))
      in shuffle_from i d (x[Suc i := x ! j, j := x ! Suc i]))"

definition shuffle :: "(nat \<Rightarrow> nat) \<Rightarrow> 'a list \<Rightarrow> 'a list" where
  "shuffle d x = shuffle_from (length x - 1) d x"

subsection \<open>The agent\<close>

definition StudentAgent_init :: "nat \<Rightarrow> real \<Rightarrow> nat \<Rightarrow> StudentAgent" where
  "StudentAgent_init uid initial_performance s =
     \<lparr>unique_id = uid, pos = None, performance = initial_performance, ses = s,
      status = Attending\<rparr>"

text \<open>\<^verbatim>\<open>G.nodes[v]["agent"]\<close>: the agents placed on node \<open>v\<close>, in placement order.\<close>

definition cell :: "SchoolModel \<Rightarrow> nat \<Rightarrow> StudentAgent list" where
  "cell m v = filter (\<lambda>a. pos a = Some v) (agents m)"

text \<open>\<^verbatim>\<open>grid.get_neighbors(pos, include_center=False)\<close>: the agents on the nodes adjacent
  to \<open>pos\<close>; a position that is no node of the graph is an error of the graph library.\<close>

definition get_neighbors :: "SchoolModel \<Rightarrow> nat option \<Rightarrow> error + StudentAgent list" where
  "get_neighbors m p =
     (case p of
        None \<Rightarrow> Inl NetworkXError
      | Some v \<Rightarrow>
          if v \<in> set (nodes (G m)) then Inr (concat (map (cell m) (adj (G m) v)))
          else Inl NetworkXError)"

text \<open>The loop over \<^verbatim>\<open>neighbor_nodes\<close>, with the counter as accumulator. The agent of a
  neighbour is looked up again through the graph, by the neighbour's \<^verbatim>\<open>unique_id\<close> used as
  a node: the first agent of that node's container.\<close>

fun dropped_out_count :: "SchoolModel \<Rightarrow> nat list \<Rightarrow> nat \<Rightarrow> error + nat" where
  "dropped_out_count m [] c = Inr c"
| "dropped_out_count m (node_id # rest) c =
     (if node_id \<notin> set (nodes (G m)) then Inl KeyError
      else case cell m node_id of
             [] \<Rightarrow> Inl AttributeError
           | neighbor_agent # _ \<Rightarrow>
               dropped_out_count m rest
                 (if status neighbor_agent = DroppedOut then c + 1 else c))"

definition peer_influence_score :: "SchoolModel \<Rightarrow> nat list \<Rightarrow> error + real" where
  "peer_influence_score m neighbor_nodes =
     (if neighbor_nodes = [] then Inr 0
      else case dropped_out_count m neighbor_nodes 0 of
             Inl e \<Rightarrow> Inl e
           | Inr dropped_out_neighbors \<Rightarrow>
               Inr (real dropped_out_neighbors / real (length neighbor_nodes)))"

definition performance_risk :: "real \<Rightarrow> real" where
  "performance_risk perf = max 0 (PERFORMANCE_THRESHOLD - perf) / PERFORMANCE_THRESHOLD"

definition p_drop :: "SchoolModel \<Rightarrow> real \<Rightarrow> real \<Rightarrow> real" where
  "p_drop m risk score =
     base_dropout_rate m + risk * (1 - peer_influence_weight m)
       + score * peer_influence_weight m"

definition apply_intervention :: "SchoolModel \<Rightarrow> StudentAgent \<Rightarrow> real \<Rightarrow> real" where
  "apply_intervention m self p =
     (if financial_aid_policy m \<and> ses self = LOW_SES
      then p * (1 - FINANCIAL_AID_EFFECTIVENESS) else p)"

text \<open>
  \<^verbatim>\<open>StudentAgent.step\<close>. \<open>self\<close> is the agent, \<open>m\<close> the model it reads, \<open>z\<close> and \<open>u\<close> the
  samples of its two random calls. The result is the agent after the step; the caller
  stores it. Only the \<open>status\<close> of other agents is read, and the agent's own status
  changes last, so reading \<open>m\<close> is reading the state the Python reads.
\<close>

definition StudentAgent_step ::
  "SchoolModel \<Rightarrow> StudentAgent \<Rightarrow> real \<Rightarrow> real \<Rightarrow> error + StudentAgent" where
  "StudentAgent_step m self z u =
     (if status self = DroppedOut then Inr self
      else
        (case np_random_normal 0 (performance_volatility m) z of
           Inl e \<Rightarrow> Inl e
         | Inr fluctuation \<Rightarrow>
             (let self1 = self\<lparr>performance := np_clip (performance self + fluctuation) 0 100\<rparr>
              in (case get_neighbors m (pos self1) of
                    Inl e \<Rightarrow> Inl e
                  | Inr neighbor_list \<Rightarrow>
                      (case peer_influence_score m (map unique_id neighbor_list) of
                         Inl e \<Rightarrow> Inl e
                       | Inr score \<Rightarrow>
                           (let p = apply_intervention m self1
                                      (p_drop m (performance_risk (performance self1)) score)
                            in Inr (if u < p then self1\<lparr>status := DroppedOut\<rparr>
                                    else self1)))))))"

subsection \<open>The model\<close>

text \<open>The samples one call of \<^verbatim>\<open>SchoolModel.step\<close> consumes: those of the scheduler's
  shuffle, and for each agent key its normal and its uniform sample.\<close>

record step_draws =
  activation_draw :: "nat \<Rightarrow> nat"
  normal_draw :: "nat \<Rightarrow> real"
  rand_draw :: "nat \<Rightarrow> real"

text \<open>The samples the constructor consumes: those of the shuffle of the tier list, and
  for the \<open>i\<close>-th agent its normal sample.\<close>

record init_draws =
  ses_shuffle_draw :: "nat \<Rightarrow> nat"
  initial_normal_draw :: "nat \<Rightarrow> real"

text \<open>\<^verbatim>\<open>schedule.add(a)\<close> appends the agent; the scheduler keeps insertion order, so the
  key \<^verbatim>\<open>unique_id\<close> of an agent is its index in \<open>agents\<close>.\<close>

definition schedule_add :: "SchoolModel \<Rightarrow> StudentAgent \<Rightarrow> SchoolModel" where
  "schedule_add m a = m\<lparr>agents := agents m @ [a]\<rparr>"

text \<open>\<^verbatim>\<open>grid.place_agent(a, node)\<close> sets \<^verbatim>\<open>a.pos\<close>; the agent is the one just added.\<close>

definition place_agent :: "StudentAgent \<Rightarrow> nat \<Rightarrow> StudentAgent" where
  "place_agent a node = a\<lparr>pos := Some node\<rparr>"

definition ses_distribution :: "nat \<Rightarrow> nat list" where
  "ses_distribution N =
     replicate (nat (py_int (real N * 0.4))) LOW_SES
     @ replicate (nat (py_int (real N * 0.4))) MEDIUM_SES
     @ replicate (nat (py_int (real N * 0.2))) HIGH_SES"

text \<open>The loop of \<^verbatim>\<open>make_agents\<close> over \<^verbatim>\<open>enumerate(self.G.nodes())\<close>; \<open>sesd\<close> is the
  shuffled tier list, and \<^verbatim>\<open>sesd[i]\<close> raises beyond its end.\<close>

fun make_agents_loop ::
  "SchoolModel \<Rightarrow> nat list \<Rightarrow> (nat \<Rightarrow> real) \<Rightarrow> (nat \<times> nat) list \<Rightarrow> error + SchoolModel" where
  "make_agents_loop m sesd z [] = Inr m"
| "make_agents_loop m sesd z ((i, node) # rest) =
     (case np_random_normal INITIAL_PERFORMANCE_MEAN INITIAL_PERFORMANCE_STD (z i) of
        Inl e \<Rightarrow> Inl e
      | Inr drawn \<Rightarrow>
          (let initial_performance = np_clip drawn 50 95
           in (if i < length sesd
               then (let a = StudentAgent_init i initial_performance (sesd ! i)
                     in make_agents_loop (schedule_add m (place_agent a node)) sesd z rest)
               else Inl IndexError)))"

definition make_agents :: "SchoolModel \<Rightarrow> init_draws \<Rightarrow> error + SchoolModel" where
  "make_agents m d =
     make_agents_loop m
       (shuffle (ses_shuffle_draw d) (ses_distribution (n_agents m)))
       (initial_normal_draw d)
       (zip [0..<length (nodes (G m))] (nodes (G m)))"

definition is_dropped_out :: "StudentAgent \<Rightarrow> bool" where
  "is_dropped_out a = (status a = DroppedOut)"

definition get_dropout_rate :: "SchoolModel \<Rightarrow> error + real" where
  "get_dropout_rate m =
     (let dropout_count = length (filter is_dropped_out (agents m))
      in if n_agents m = 0 then Inl ZeroDivisionError
         else Inr (real dropout_count / real (n_agents m) * 100))"

definition get_dropout_by_ses :: "SchoolModel \<Rightarrow> nat \<Rightarrow> real" where
  "get_dropout_by_ses m ses_level =
     (let ses_agents = filter (\<lambda>a. ses a = ses_level) (agents m)
      in if ses_agents = [] then 0
         else let dropout_count = length (filter is_dropped_out ses_agents)
              in real dropout_count / real (length ses_agents) * 100)"

definition setup_datacollector :: "SchoolModel \<Rightarrow> SchoolModel" where
  "setup_datacollector m = m\<lparr>model_vars := [], agent_records := []\<rparr>"

text \<open>The reporters of \<^verbatim>\<open>setup_datacollector\<close>: the model reporters are evaluated in
  their order, the total rate first; the agent reporters read three attributes.\<close>

definition model_reporters :: "SchoolModel \<Rightarrow> error + model_row" where
  "model_reporters m =
     (case get_dropout_rate m of
        Inl e \<Rightarrow> Inl e
      | Inr total_rate \<Rightarrow>
          Inr \<lparr>total_dropout_rate = total_rate,
               low_ses_dropout_rate = get_dropout_by_ses m LOW_SES,
               medium_ses_dropout_rate = get_dropout_by_ses m MEDIUM_SES,
               high_ses_dropout_rate = get_dropout_by_ses m HIGH_SES,
               financial_aid_policy_var = financial_aid_policy m,
               peer_influence_weight_var = peer_influence_weight m\<rparr>)"

definition agent_reporters :: "StudentAgent \<Rightarrow> agent_row" where
  "agent_reporters a =
     \<lparr>agent_id = unique_id a, performance_var = performance a, status_var = status a,
      ses_var = ses a\<rparr>"

text \<open>\<^verbatim>\<open>datacollector.collect(self)\<close>: one row is appended to each table.\<close>

definition collect :: "SchoolModel \<Rightarrow> error + SchoolModel" where
  "collect m =
     (case model_reporters m of
        Inl e \<Rightarrow> Inl e
      | Inr row \<Rightarrow>
          Inr (m\<lparr>model_vars := model_vars m @ [row],
                 agent_records := agent_records m @ [map agent_reporters (agents m)]\<rparr>))"

text \<open>The scheduler's pass over the shuffled agent keys: a key the scheduler holds no
  agent for is skipped, and each agent's step is stored back under its key. An exception
  ends the pass.\<close>

fun do_each :: "SchoolModel \<Rightarrow> step_draws \<Rightarrow> nat list \<Rightarrow> error + SchoolModel" where
  "do_each m d [] = Inr m"
| "do_each m d (agent_key # agent_keys) =
     (if agent_key < length (agents m)
      then case StudentAgent_step m (agents m ! agent_key)
                  (normal_draw d agent_key) (rand_draw d agent_key) of
             Inl e \<Rightarrow> Inl e
           | Inr a \<Rightarrow> do_each (m\<lparr>agents := (agents m)[agent_key := a]\<rparr>) d agent_keys
      else do_each m d agent_keys)"

definition schedule_step :: "SchoolModel \<Rightarrow> step_draws \<Rightarrow> error + SchoolModel" where
  "schedule_step m d =
     do_each m d (shuffle (activation_draw d) [0..<length (agents m)])"

definition SchoolModel_step :: "SchoolModel \<Rightarrow> step_draws \<Rightarrow> error + SchoolModel" where
  "SchoolModel_step m d =
     (case collect (m\<lparr>steps := steps m + 1\<rparr>) of
        Inl e \<Rightarrow> Inl e
      | Inr m' \<Rightarrow> schedule_step m' d)"

text \<open>\<^verbatim>\<open>SchoolModel.__init__\<close>, with the graph generator as the parameter
  \<open>watts_strogatz_graph\<close>.\<close>

definition SchoolModel_init ::
  "(nat \<Rightarrow> nat \<Rightarrow> real \<Rightarrow> error + Graph) \<Rightarrow> nat \<Rightarrow> nat \<Rightarrow> real \<Rightarrow> real \<Rightarrow> real \<Rightarrow> real \<Rightarrow> bool
     \<Rightarrow> init_draws \<Rightarrow> error + SchoolModel" where
  "SchoolModel_init watts_strogatz_graph N k_degree rewiring_prob base_rate weight volatility
       aid d =
     (case watts_strogatz_graph N k_degree rewiring_prob of
        Inl e \<Rightarrow> Inl e
      | Inr g \<Rightarrow>
          (case make_agents
                  \<lparr>running = True, n_agents = N, steps = 0, base_dropout_rate = base_rate,
                   peer_influence_weight = weight, performance_volatility = volatility,
                   financial_aid_policy = aid, G = g, agents = [], model_vars = [],
                   agent_records = []\<rparr> d of
             Inl e \<Rightarrow> Inl e
           | Inr m \<Rightarrow> Inr (setup_datacollector m)))"

text \<open>The caller's loop \<^verbatim>\<open>for _ in range(num_steps): model.step()\<close>, one entry of \<open>ds\<close>
  per call.\<close>

fun run_steps :: "SchoolModel \<Rightarrow> step_draws list \<Rightarrow> error + SchoolModel" where
  "run_steps m [] = Inr m"
| "run_steps m (d # ds) =
     (case SchoolModel_step m d of Inl e \<Rightarrow> Inl e | Inr m' \<Rightarrow> run_steps m' ds)"

subsection \<open>Well-placed populations\<close>

text \<open>
  What the constructor establishes and the agents' lookups rely on: the nodes are
  \<open>0, \<dots>, N - 1\<close>, agent \<open>i\<close> has \<^verbatim>\<open>unique_id\<close> \<open>i\<close> and sits on node \<open>i\<close>, and
  the neighbours of a node are nodes.
\<close>

definition placed :: "SchoolModel \<Rightarrow> bool" where
  "placed m \<longleftrightarrow>
     nodes (G m) = [0..<length (agents m)]
     \<and> map unique_id (agents m) = [0..<length (agents m)]
     \<and> map pos (agents m) = map Some [0..<length (agents m)]
     \<and> list_all (\<lambda>v. list_all (\<lambda>w. w < length (agents m)) (adj (G m) v)) (nodes (G m))"

text \<open>The metrics a run has recorded: the model variables of the data collector.\<close>

definition metrics :: "error + SchoolModel \<Rightarrow> model_row list" where
  "metrics r = (case r of Inl e \<Rightarrow> [] | Inr m \<Rightarrow> model_vars m)"

subsection \<open>One trial, and generators in the same state\<close>




subsection \<open>A sample school\<close>

text \<open>Inputs for the examples: a generator that returns the ring on \<open>N\<close> nodes, each
  node joined to the node before and the node after it, and samples that are constant,
  but for the uniform samples, which are given per agent.\<close>

definition ring_graph :: "nat \<Rightarrow> nat \<Rightarrow> real \<Rightarrow> error + Graph" where
  "ring_graph N k_degree rewiring_prob =
     Inr \<lparr>nodes = [0..<N], adj = (\<lambda>v. [(v + N - 1) mod N, (v + 1) mod N])\<rparr>"

definition sample_init :: init_draws where
  "sample_init = \<lparr>ses_shuffle_draw = (\<lambda>i. 0), initial_normal_draw = (\<lambda>i. 0)\<rparr>"

definition sample_step :: "(nat \<Rightarrow> real) \<Rightarrow> step_draws" where
  "sample_step u = \<lparr>activation_draw = (\<lambda>i. 0), normal_draw = (\<lambda>i. 0), rand_draw = u\<rparr>"

section \<open>Properties\<close>

subsection \<open>Shuffles and the tier list\<close>

lemma length_shuffle_from: "length (shuffle_from i d x) = length x"
  by (induction i arbitrary: x) (simp_all add: Let_def)

lemma length_shuffle: "length (shuffle d x) = length x"
  by (simp add: shuffle_def length_shuffle_from)

text \<open>A shuffle is a permutation: it keeps every element, as often as it occurs.\<close>

lemma mset_shuffle_from:
  "i < length x \<Longrightarrow> mset (shuffle_from i d x) = mset x"
proof (induction i arbitrary: x)
  case 0
  show ?case by simp
next
  case (Suc i)
  let ?j = "d (Suc i) mod Suc (Suc i)"
  have "?j < Suc (Suc i)" by (rule mod_less_divisor) simp
  with Suc.prems have j: "?j < length x" by linarith
  have "mset (x[Suc i := x ! ?j, ?j := x ! Suc i]) = mset x"
    using mset_swap [OF j Suc.prems] .
  moreover have "i < length (x[Suc i := x ! ?j, ?j := x ! Suc i])" using Suc.prems by simp
  ultimately show ?case using Suc.IH by (simp add: Let_def)
qed

lemma mset_shuffle: "mset (shuffle d x) = mset x"
proof (cases x)
  case Nil
  then show ?thesis by (simp add: shuffle_def)
next
  case (Cons a as)
  then have "length x - 1 < length x" by simp
  then show ?thesis unfolding shuffle_def by (rule mset_shuffle_from)
qed

lemma py_int_04: "py_int (real N * 0.4) = int ((2 * N) div 5)"
proof -
  have "real N * 0.4 = real (2 * N) / real 5" by simp
  then have "\<lfloor>real N * 0.4\<rfloor> = int ((2 * N) div 5)"
    by (simp only: floor_divide_of_nat_eq)
  then show ?thesis by (simp add: py_int_def)
qed

lemma py_int_02: "py_int (real N * 0.2) = int (N div 5)"
proof -
  have "real N * 0.2 = real N / real 5" by simp
  then have "\<lfloor>real N * 0.2\<rfloor> = int (N div 5)"
    by (simp only: floor_divide_of_nat_eq)
  then show ?thesis by (simp add: py_int_def)
qed

lemma length_ses_distribution:
  "length (ses_distribution N) = 2 * ((2 * N) div 5) + N div 5"
  unfolding ses_distribution_def py_int_04 py_int_02 by simp

lemma r_cases:
  fixes r :: nat
  assumes "r < 5"
  shows "2 * ((2 * r) div 5) \<le> r \<and> (r \<noteq> 0 \<longrightarrow> 2 * ((2 * r) div 5) < r)"
proof -
  from assms have "r = 0 \<or> r = 1 \<or> r = 2 \<or> r = 3 \<or> r = 4" by linarith
  then show ?thesis by (elim disjE) simp_all
qed

lemma tier_sum:
  fixes q r :: nat
  assumes "r < 5"
  shows "2 * ((2 * (r + q * 5)) div 5) + (r + q * 5) div 5 = 5 * q + 2 * ((2 * r) div 5)"
proof -
  have a: "(2 * (r + q * 5)) div 5 = (2 * r + (2 * q) * 5) div 5"
    by (simp add: algebra_simps)
  have b: "(2 * r + (2 * q) * 5) div 5 = 2 * q + (2 * r) div 5"
    by (rule div_mult_self1) simp
  have c: "(r + q * 5) div 5 = q + r div 5"
    by (rule div_mult_self1) simp
  have d: "r div 5 = 0" using assms by simp
  show ?thesis unfolding a b c d by simp
qed

lemma length_ses_distribution_mod:
  "length (ses_distribution N) = 5 * (N div 5) + 2 * ((2 * (N mod 5)) div 5)"
proof -
  have N: "N = N mod 5 + (N div 5) * 5" by simp
  have "length (ses_distribution N) = 2 * ((2 * N) div 5) + N div 5"
    by (rule length_ses_distribution)
  also have "\<dots> = 2 * ((2 * (N mod 5 + (N div 5) * 5)) div 5) + (N mod 5 + (N div 5) * 5) div 5"
    using N by simp
  also have "\<dots> = 5 * (N div 5) + 2 * ((2 * (N mod 5)) div 5)"
    by (rule tier_sum) simp
  finally show ?thesis .
qed

lemma length_ses_distribution_le: "length (ses_distribution N) \<le> N"
proof -
  have "2 * ((2 * (N mod 5)) div 5) \<le> N mod 5" using r_cases [of "N mod 5"] by simp
  moreover have "N = 5 * (N div 5) + N mod 5" by simp
  ultimately show ?thesis unfolding length_ses_distribution_mod by linarith
qed

lemma length_ses_distribution_eq: "length (ses_distribution N) = N \<longleftrightarrow> 5 dvd N"
proof (cases "N mod 5 = 0")
  case True
  then have "5 * (N div 5) = N" by (metis mult_div_mod_eq add.right_neutral)
  with True show ?thesis unfolding length_ses_distribution_mod
    by (simp add: dvd_eq_mod_eq_0)
next
  case False
  then have "2 * ((2 * (N mod 5)) div 5) < N mod 5" using r_cases [of "N mod 5"] by simp
  moreover have "N = 5 * (N div 5) + N mod 5" by simp
  ultimately have "length (ses_distribution N) < N"
    unfolding length_ses_distribution_mod by linarith
  with False show ?thesis by (simp add: dvd_eq_mod_eq_0)
qed

subsection \<open>The loop of make_agents\<close>

lemma np_random_normal_initial:
  "np_random_normal INITIAL_PERFORMANCE_MEAN INITIAL_PERFORMANCE_STD z = Inr (75 + 10 * z)"
  by (simp add: np_random_normal_def INITIAL_PERFORMANCE_MEAN_def INITIAL_PERFORMANCE_STD_def)

lemma make_agents_loop_ok:
  "\<forall>p \<in> set ps. fst p < length sesd \<Longrightarrow>
   make_agents_loop m sesd z ps =
     Inr (m\<lparr>agents := agents m @
            map (\<lambda>p. place_agent
                        (StudentAgent_init (fst p) (np_clip (75 + 10 * z (fst p)) 50 95)
                           (sesd ! fst p)) (snd p)) ps\<rparr>)"
proof (induction ps arbitrary: m)
  case Nil
  show ?case by simp
next
  case (Cons p ps)
  obtain i node where p: "p = (i, node)" by (cases p)
  from Cons.prems p have i: "i < length sesd" and rest: "\<forall>p \<in> set ps. fst p < length sesd"
    by simp_all
  show ?case
    unfolding p
    by (simp add: np_random_normal_initial i Cons.IH [OF rest] schedule_add_def)
qed

lemma make_agents_loop_fail:
  "\<exists>p \<in> set ps. \<not> fst p < length sesd \<Longrightarrow> make_agents_loop m sesd z ps = Inl IndexError"
proof (induction ps arbitrary: m)
  case Nil
  then show ?case by simp
next
  case (Cons p ps)
  obtain i node where p: "p = (i, node)" by (cases p)
  show ?case
  proof (cases "i < length sesd")
    case True
    with Cons.prems p have "\<exists>p \<in> set ps. \<not> fst p < length sesd" by auto
    from Cons.IH [OF this] True show ?thesis
      unfolding p by (simp add: np_random_normal_initial)
  next
    case False
    then show ?thesis unfolding p by (simp add: np_random_normal_initial)
  qed
qed

lemma make_agents_ok:
  assumes "length (nodes (G m)) \<le> length (ses_distribution (n_agents m))"
  shows "make_agents m d =
     Inr (m\<lparr>agents := agents m @
            map (\<lambda>p. place_agent
                        (StudentAgent_init (fst p)
                           (np_clip (75 + 10 * initial_normal_draw d (fst p)) 50 95)
                           (shuffle (ses_shuffle_draw d) (ses_distribution (n_agents m)) ! fst p))
                        (snd p))
              (zip [0..<length (nodes (G m))] (nodes (G m)))\<rparr>)"
  unfolding make_agents_def
proof (rule make_agents_loop_ok, rule ballI)
  fix p assume "p \<in> set (zip [0..<length (nodes (G m))] (nodes (G m)))"
  then have "fst p \<in> set [0..<length (nodes (G m))]"
    by (metis prod.collapse set_zip_leftD)
  with assms show "fst p < length (shuffle (ses_shuffle_draw d) (ses_distribution (n_agents m)))"
    by (simp add: length_shuffle)
qed

lemma make_agents_fail:
  assumes "length (ses_distribution (n_agents m)) < length (nodes (G m))"
  shows "make_agents m d = Inl IndexError"
  unfolding make_agents_def
proof (rule make_agents_loop_fail)
  let ?L = "length (ses_distribution (n_agents m))"
  let ?ns = "nodes (G m)"
  have "(?L, ?ns ! ?L) \<in> set (zip [0..<length ?ns] ?ns)"
    using assms by (auto simp: in_set_zip intro!: exI [of _ ?L])
  then show "\<exists>p\<in>set (zip [0..<length ?ns] ?ns).
     \<not> fst p < length (shuffle (ses_shuffle_draw d) (ses_distribution (n_agents m)))"
    by (auto simp: length_shuffle intro!: bexI [of _ "(?L, ?ns ! ?L)"])
qed

subsection \<open>One step of an agent\<close>

lemma np_clip_range: "lo \<le> hi \<Longrightarrow> lo \<le> np_clip x lo hi \<and> np_clip x lo hi \<le> hi"
  by (simp add: np_clip_def min_def max_def)

lemma StudentAgent_step_dropped:
  "status a = DroppedOut \<Longrightarrow> StudentAgent_step m a z u = Inr a"
  by (simp add: StudentAgent_step_def)

lemma StudentAgent_step_attending:
  assumes "StudentAgent_step m a z u = Inr a'" and "status a \<noteq> DroppedOut"
  shows "\<exists>nb score.
           0 \<le> performance_volatility m
         \<and> get_neighbors m (pos a) = Inr nb
         \<and> peer_influence_score m (map unique_id nb) = Inr score
         \<and> a' = (let self1 = a\<lparr>performance :=
                                np_clip (performance a + performance_volatility m * z) 0 100\<rparr>;
                      p = apply_intervention m self1
                            (p_drop m (performance_risk (performance self1)) score)
                  in if u < p then self1\<lparr>status := DroppedOut\<rparr> else self1)"
  using assms
  by (auto simp: StudentAgent_step_def np_random_normal_def Let_def
           split: if_splits sum.splits)

lemma StudentAgent_step_fields:
  assumes "StudentAgent_step m a z u = Inr a'"
  shows "unique_id a' = unique_id a" and "pos a' = pos a" and "ses a' = ses a"
proof -
  have "unique_id a' = unique_id a \<and> pos a' = pos a \<and> ses a' = ses a"
  proof (cases "status a = DroppedOut")
    case True
    with assms show ?thesis by (simp add: StudentAgent_step_dropped)
  next
    case False
    from StudentAgent_step_attending [OF assms False] show ?thesis
      by (auto simp: Let_def split: if_splits)
  qed
  then show "unique_id a' = unique_id a" and "pos a' = pos a" and "ses a' = ses a"
    by simp_all
qed

lemma StudentAgent_step_performance:
  assumes "StudentAgent_step m a z u = Inr a'"
    and "0 \<le> performance a \<and> performance a \<le> 100"
  shows "0 \<le> performance a' \<and> performance a' \<le> 100"
proof (cases "status a = DroppedOut")
  case True
  with assms show ?thesis by (simp add: StudentAgent_step_dropped)
next
  case False
  from StudentAgent_step_attending [OF assms(1) False]
  have "performance a' = np_clip (performance a + performance_volatility m * z) 0 100"
    by (auto simp: Let_def split: if_splits)
  then show ?thesis using np_clip_range [of 0 100] by simp
qed

subsection \<open>The scheduler, a step, a run\<close>

lemma do_each_frame:
  "do_each m d keys = Inr m' \<Longrightarrow> m' = m\<lparr>agents := agents m'\<rparr>"
proof (induction keys arbitrary: m)
  case Nil
  then show ?case by simp
next
  case (Cons k keys)
  show ?case
  proof (cases "k < length (agents m)")
    case False
    with Cons show ?thesis by simp
  next
    case True
    with Cons.prems obtain a where
      a: "StudentAgent_step m (agents m ! k) (normal_draw d k) (rand_draw d k) = Inr a"
      and rest: "do_each (m\<lparr>agents := (agents m)[k := a]\<rparr>) d keys = Inr m'"
      by (auto split: sum.splits)
    from Cons.IH [OF rest] show ?thesis by (cases m, cases m') simp
  qed
qed

lemma do_each_rel:
  assumes step: "\<And>m a z u a'. StudentAgent_step m a z u = Inr a' \<Longrightarrow> R a a'"
    and refl: "\<And>a. R a a"
    and trans: "\<And>a b c. R a b \<Longrightarrow> R b c \<Longrightarrow> R a c"
  shows "do_each m d keys = Inr m' \<Longrightarrow>
         length (agents m') = length (agents m)
         \<and> (\<forall>i < length (agents m). R (agents m ! i) (agents m' ! i))"
proof (induction keys arbitrary: m)
  case Nil
  then show ?case by (simp add: refl)
next
  case (Cons k keys)
  show ?case
  proof (cases "k < length (agents m)")
    case False
    with Cons show ?thesis by simp
  next
    case True
    with Cons.prems obtain a where
      a: "StudentAgent_step m (agents m ! k) (normal_draw d k) (rand_draw d k) = Inr a"
      and rest: "do_each (m\<lparr>agents := (agents m)[k := a]\<rparr>) d keys = Inr m'"
      by (auto split: sum.splits)
    let ?m1 = "m\<lparr>agents := (agents m)[k := a]\<rparr>"
    from Cons.IH [OF rest]
    have len: "length (agents m') = length (agents m)"
      and ih: "\<forall>i < length (agents m). R (agents ?m1 ! i) (agents m' ! i)"
      by simp_all
    have "R (agents m ! i) (agents m' ! i)" if i: "i < length (agents m)" for i
    proof -
      have "R (agents m ! i) (agents ?m1 ! i)"
      proof (cases "i = k")
        case True
        with i step [OF a] show ?thesis by simp
      next
        case False
        then show ?thesis by (simp add: refl)
      qed
      with ih i show ?thesis by (blast intro: trans)
    qed
    with len show ?thesis by simp
  qed
qed

lemma collect_Inr:
  "collect m = Inr m' \<Longrightarrow>
     \<exists>row. model_reporters m = Inr row
       \<and> m' = m\<lparr>model_vars := model_vars m @ [row],
                agent_records := agent_records m @ [map agent_reporters (agents m)]\<rparr>"
  by (auto simp: collect_def split: sum.splits)

lemma model_reporters_steps [simp]:
  "model_reporters (m\<lparr>steps := n\<rparr>) = model_reporters m"
  by (simp add: model_reporters_def get_dropout_rate_def get_dropout_by_ses_def)

lemma SchoolModel_step_frame:
  assumes "SchoolModel_step m d = Inr m'"
  shows "\<exists>row. model_reporters m = Inr row
       \<and> m' = m\<lparr>steps := steps m + 1, model_vars := model_vars m @ [row],
                agent_records := agent_records m @ [map agent_reporters (agents m)],
                agents := agents m'\<rparr>"
proof -
  from assms obtain m1 where c: "collect (m\<lparr>steps := steps m + 1\<rparr>) = Inr m1"
    and s: "schedule_step m1 d = Inr m'"
    by (auto simp: SchoolModel_step_def split: sum.splits)
  from collect_Inr [OF c] obtain row where row: "model_reporters m = Inr row"
    and m1: "m1 = m\<lparr>steps := steps m + 1, model_vars := model_vars m @ [row],
                agent_records := agent_records m @ [map agent_reporters (agents m)]\<rparr>"
    by auto
  from s have "m' = m1\<lparr>agents := agents m'\<rparr>"
    unfolding schedule_step_def by (rule do_each_frame)
  with row m1 show ?thesis by simp
qed

lemma SchoolModel_step_rel:
  assumes step: "\<And>m a z u a'. StudentAgent_step m a z u = Inr a' \<Longrightarrow> R a a'"
    and refl: "\<And>a. R a a"
    and trans: "\<And>a b c. R a b \<Longrightarrow> R b c \<Longrightarrow> R a c"
    and run: "SchoolModel_step m d = Inr m'"
  shows "length (agents m') = length (agents m)
         \<and> (\<forall>i < length (agents m). R (agents m ! i) (agents m' ! i))"
proof -
  from run obtain m1 where c: "collect (m\<lparr>steps := steps m + 1\<rparr>) = Inr m1"
    and s: "schedule_step m1 d = Inr m'"
    by (auto simp: SchoolModel_step_def split: sum.splits)
  from collect_Inr [OF c] have "agents m1 = agents m" by auto
  moreover have "length (agents m') = length (agents m1)
         \<and> (\<forall>i < length (agents m1). R (agents m1 ! i) (agents m' ! i))"
  proof (rule do_each_rel [where R = R])
    show "do_each m1 d (shuffle (activation_draw d) [0..<length (agents m1)]) = Inr m'"
      using s by (simp add: schedule_step_def)
  qed (erule step, rule refl, erule trans, assumption)
  ultimately show ?thesis by simp
qed

lemma run_steps_rel:
  assumes step: "\<And>m a z u a'. StudentAgent_step m a z u = Inr a' \<Longrightarrow> R a a'"
    and refl: "\<And>a. R a a"
    and trans: "\<And>a b c. R a b \<Longrightarrow> R b c \<Longrightarrow> R a c"
  shows "run_steps m ds = Inr m' \<Longrightarrow>
         length (agents m') = length (agents m)
         \<and> (\<forall>i < length (agents m). R (agents m ! i) (agents m' ! i))"
proof (induction ds arbitrary: m)
  case Nil
  then show ?case by (simp add: refl)
next
  case (Cons d ds)
  then obtain m1 where one: "SchoolModel_step m d = Inr m1"
    and rest: "run_steps m1 ds = Inr m'"
    by (auto split: sum.splits)
  have "length (agents m1) = length (agents m)
         \<and> (\<forall>i < length (agents m). R (agents m ! i) (agents m1 ! i))"
    by (rule SchoolModel_step_rel [where R = R and d = d])
       (erule step, rule refl, erule trans, assumption, rule one)
  with Cons.IH [OF rest] show ?case by (auto intro: trans)
qed

subsection \<open>Lookups in a well-placed population\<close>

lemma filter_pos_placed:
  "map pos xs = map Some [0..<length xs] \<Longrightarrow>
   filter (\<lambda>a. pos a = Some v) xs = (if v < length xs then [xs ! v] else [])"
proof (induction xs rule: rev_induct)
  case Nil
  show ?case by simp
next
  case (snoc x xs)
  from snoc.prems have xs: "map pos xs = map Some [0..<length xs]"
    and x: "pos x = Some (length xs)" by simp_all
  from snoc.IH [OF xs] x show ?case by (auto simp: nth_append)
qed

lemma placedD:
  assumes "placed m"
  shows "nodes (G m) = [0..<length (agents m)]"
    and "i < length (agents m) \<Longrightarrow> unique_id (agents m ! i) = i"
    and "i < length (agents m) \<Longrightarrow> pos (agents m ! i) = Some i"
    and "i < length (agents m) \<Longrightarrow> w \<in> set (adj (G m) i) \<Longrightarrow> w < length (agents m)"
    and "cell m v = (if v < length (agents m) then [agents m ! v] else [])"
proof -
  from assms have n: "nodes (G m) = [0..<length (agents m)]"
    and u: "map unique_id (agents m) = [0..<length (agents m)]"
    and p: "map pos (agents m) = map Some [0..<length (agents m)]"
    and a: "list_all (\<lambda>v. list_all (\<lambda>w. w < length (agents m)) (adj (G m) v)) (nodes (G m))"
    unfolding placed_def by blast+
  show "nodes (G m) = [0..<length (agents m)]" by (rule n)
  show "unique_id (agents m ! i) = i" if "i < length (agents m)"
    using that nth_map [of i "agents m" unique_id] u by simp
  show "pos (agents m ! i) = Some i" if "i < length (agents m)"
    using that nth_map [of i "agents m" pos] p by simp
  show "w < length (agents m)" if "i < length (agents m)" "w \<in> set (adj (G m) i)"
    using that a unfolding n by (auto simp: list_all_iff)
  show "cell m v = (if v < length (agents m) then [agents m ! v] else [])"
    unfolding cell_def by (rule filter_pos_placed [OF p])
qed

lemma get_neighbors_placed:
  assumes "placed m" and "i < length (agents m)"
  shows "get_neighbors m (Some i) = Inr (map (\<lambda>v. agents m ! v) (adj (G m) i))"
proof -
  have "concat (map (cell m) vs) = map (\<lambda>v. agents m ! v) vs"
    if "\<forall>v \<in> set vs. v < length (agents m)" for vs
    using that by (induction vs) (simp_all add: placedD(5) [OF assms(1)])
  moreover have "\<forall>v \<in> set (adj (G m) i). v < length (agents m)"
    using placedD(4) [OF assms] by blast
  ultimately show ?thesis
    using assms(2) by (simp add: get_neighbors_def placedD(1) [OF assms(1)])
qed

lemma dropped_out_count_placed:
  assumes "placed m"
  shows "\<forall>v \<in> set vs. v < length (agents m) \<Longrightarrow>
         dropped_out_count m vs c =
           Inr (c + length (filter (\<lambda>v. status (agents m ! v) = DroppedOut) vs))"
  by (induction vs arbitrary: c)
     (simp_all add: placedD(1) [OF assms] placedD(5) [OF assms])

lemma neighbor_nodes_placed:
  assumes "placed m" and "i < length (agents m)"
  shows "map unique_id (map (\<lambda>v. agents m ! v) (adj (G m) i)) = adj (G m) i"
proof -
  have "\<forall>v \<in> set (adj (G m) i). v < length (agents m)"
    using placedD(4) [OF assms] by blast
  then show ?thesis by (simp add: map_idI placedD(2) [OF assms(1)])
qed

lemma peer_influence_score_placed:
  assumes "placed m" and "i < length (agents m)"
  shows "peer_influence_score m (adj (G m) i) =
         Inr (if adj (G m) i = [] then 0
              else real (length (filter (\<lambda>v. status (agents m ! v) = DroppedOut) (adj (G m) i)))
                   / real (length (adj (G m) i)))"
proof -
  have in_range: "\<forall>v \<in> set (adj (G m) i). v < length (agents m)"
    using placedD(4) [OF assms] by blast
  show ?thesis
    by (simp add: peer_influence_score_def dropped_out_count_placed [OF assms(1) in_range])
qed

lemma StudentAgent_step_placed:
  assumes "placed m" and "i < length (agents m)" and "0 \<le> performance_volatility m"
    and "status (agents m ! i) \<noteq> DroppedOut"
  shows "StudentAgent_step m (agents m ! i) z u =
     Inr (let self1 = (agents m ! i)\<lparr>performance :=
                 np_clip (performance (agents m ! i) + performance_volatility m * z) 0 100\<rparr>;
              score = (if adj (G m) i = [] then 0
                 else real (length (filter (\<lambda>v. status (agents m ! v) = DroppedOut)
                                      (adj (G m) i)))
                      / real (length (adj (G m) i)));
              p = apply_intervention m self1
                    (p_drop m (performance_risk (performance self1)) score)
          in if u < p then self1\<lparr>status := DroppedOut\<rparr> else self1)"
  using assms(3,4)
  by (simp add: StudentAgent_step_def np_random_normal_def Let_def
        placedD(3) [OF assms(1,2)] get_neighbors_placed [OF assms(1,2)]
        neighbor_nodes_placed [OF assms(1,2)]
        peer_influence_score_placed [OF assms(1,2)] del: map_map)

lemma StudentAgent_step_total:
  assumes "placed m" and "i < length (agents m)" and "0 \<le> performance_volatility m"
  shows "\<exists>a. StudentAgent_step m (agents m ! i) z u = Inr a"
proof (cases "status (agents m ! i) = DroppedOut")
  case True
  then show ?thesis by (simp add: StudentAgent_step_dropped)
next
  case False
  from StudentAgent_step_placed [OF assms False] show ?thesis by blast
qed

subsection \<open>Well-placedness is kept; steps succeed\<close>

lemma placed_cong: "G m' = G m \<Longrightarrow> agents m' = agents m \<Longrightarrow> placed m' = placed m"
  unfolding placed_def by simp

lemma placed_update:
  assumes "placed m" and "StudentAgent_step m0 (agents m ! k) z u = Inr a"
  shows "placed (m\<lparr>agents := (agents m)[k := a]\<rparr>)"
proof -
  note f = StudentAgent_step_fields [OF assms(2)]
  from assms(1) have n: "nodes (G m) = [0..<length (agents m)]"
    and u: "map unique_id (agents m) = [0..<length (agents m)]"
    and p: "map pos (agents m) = map Some [0..<length (agents m)]"
    and a: "list_all (\<lambda>v. list_all (\<lambda>w. w < length (agents m)) (adj (G m) v)) (nodes (G m))"
    unfolding placed_def by blast+
  have u': "map unique_id ((agents m)[k := a]) = map unique_id (agents m)"
    unfolding map_update f
    by (cases "k < length (agents m)") (simp_all add: list_update_same_conv list_update_beyond)
  have p': "map pos ((agents m)[k := a]) = map pos (agents m)"
    unfolding map_update f
    by (cases "k < length (agents m)") (simp_all add: list_update_same_conv list_update_beyond)
  show ?thesis
    unfolding placed_def using n u p a by (simp add: u' p')
qed

lemma do_each_placed:
  "placed m \<Longrightarrow> do_each m d keys = Inr m' \<Longrightarrow> placed m'"
proof (induction keys arbitrary: m)
  case Nil
  then show ?case by simp
next
  case (Cons k keys)
  show ?case
  proof (cases "k < length (agents m)")
    case False
    with Cons show ?thesis by simp
  next
    case True
    with Cons.prems obtain a where
      a: "StudentAgent_step m (agents m ! k) (normal_draw d k) (rand_draw d k) = Inr a"
      and rest: "do_each (m\<lparr>agents := (agents m)[k := a]\<rparr>) d keys = Inr m'"
      by (auto split: sum.splits)
    from Cons.IH [OF placed_update [OF Cons.prems(1) a] rest] show ?thesis .
  qed
qed

lemma do_each_total:
  "placed m \<Longrightarrow> 0 \<le> performance_volatility m \<Longrightarrow> \<exists>m'. do_each m d keys = Inr m'"
proof (induction keys arbitrary: m)
  case Nil
  show ?case by simp
next
  case (Cons k keys)
  show ?case
  proof (cases "k < length (agents m)")
    case False
    with Cons show ?thesis by simp
  next
    case True
    from StudentAgent_step_total [OF Cons.prems(1) True Cons.prems(2)] obtain a where
      a: "StudentAgent_step m (agents m ! k) (normal_draw d k) (rand_draw d k) = Inr a"
      by blast
    let ?m1 = "m\<lparr>agents := (agents m)[k := a]\<rparr>"
    have "placed ?m1" by (rule placed_update [OF Cons.prems(1) a])
    moreover have "0 \<le> performance_volatility ?m1" using Cons.prems(2) by simp
    ultimately obtain m' where "do_each ?m1 d keys = Inr m'" using Cons.IH by blast
    with True a show ?thesis by simp
  qed
qed

lemma placed_collect_fields:
  "placed (m\<lparr>steps := s, model_vars := mv, agent_records := ar\<rparr>) = placed m"
  by (simp add: placed_def)

lemma SchoolModel_step_placed:
  assumes "placed m" and "SchoolModel_step m d = Inr m'"
  shows "placed m'"
proof -
  from assms(2) obtain m1 where c: "collect (m\<lparr>steps := steps m + 1\<rparr>) = Inr m1"
    and s: "schedule_step m1 d = Inr m'"
    by (auto simp: SchoolModel_step_def split: sum.splits)
  from collect_Inr [OF c] have "G m1 = G m" and "agents m1 = agents m" by auto
  then have "placed m1" using assms(1) placed_cong [of m1 m] by simp
  then show ?thesis using s unfolding schedule_step_def by (rule do_each_placed)
qed

lemma SchoolModel_step_total:
  assumes "placed m" and "0 \<le> performance_volatility m" and "0 < n_agents m"
  shows "\<exists>m'. SchoolModel_step m d = Inr m'"
proof -
  from assms(3) obtain row where row: "model_reporters (m\<lparr>steps := steps m + 1\<rparr>) = Inr row"
    by (auto simp: model_reporters_def get_dropout_rate_def)
  let ?m1 = "m\<lparr>steps := steps m + 1, model_vars := model_vars m @ [row],
               agent_records := agent_records m @ [map agent_reporters (agents m)]\<rparr>"
  have c: "collect (m\<lparr>steps := steps m + 1\<rparr>) = Inr ?m1"
    using row by (simp add: collect_def)
  have "placed ?m1" using assms(1) placed_cong [of ?m1 m] by simp
  moreover have "0 \<le> performance_volatility ?m1" using assms(2) by simp
  ultimately obtain m' where "schedule_step ?m1 d = Inr m'"
    unfolding schedule_step_def using do_each_total by blast
  with c show ?thesis by (simp add: SchoolModel_step_def)
qed

lemma SchoolModel_step_params:
  assumes "SchoolModel_step m d = Inr m'"
  shows "n_agents m' = n_agents m" and "performance_volatility m' = performance_volatility m"
    and "G m' = G m" and "steps m' = steps m + 1"
    and "base_dropout_rate m' = base_dropout_rate m"
    and "peer_influence_weight m' = peer_influence_weight m"
    and "financial_aid_policy m' = financial_aid_policy m"
proof -
  from SchoolModel_step_frame [OF assms] obtain row where
    m': "m' = m\<lparr>steps := steps m + 1, model_vars := model_vars m @ [row],
                agent_records := agent_records m @ [map agent_reporters (agents m)],
                agents := agents m'\<rparr>" by blast
  show "n_agents m' = n_agents m" by (subst m') simp
  show "performance_volatility m' = performance_volatility m" by (subst m') simp
  show "G m' = G m" by (subst m') simp
  show "steps m' = steps m + 1" by (subst m') simp
  show "base_dropout_rate m' = base_dropout_rate m" by (subst m') simp
  show "peer_influence_weight m' = peer_influence_weight m" by (subst m') simp
  show "financial_aid_policy m' = financial_aid_policy m" by (subst m') simp
qed

lemma run_steps_total:
  "placed m \<Longrightarrow> 0 \<le> performance_volatility m \<Longrightarrow> 0 < n_agents m \<Longrightarrow>
   \<exists>m'. run_steps m ds = Inr m'"
proof (induction ds arbitrary: m)
  case Nil
  show ?case by simp
next
  case (Cons d ds)
  from SchoolModel_step_total [OF Cons.prems] obtain m1 where
    one: "SchoolModel_step m d = Inr m1" by blast
  have "placed m1" by (rule SchoolModel_step_placed [OF Cons.prems(1) one])
  moreover have "0 \<le> performance_volatility m1" "0 < n_agents m1"
    using Cons.prems SchoolModel_step_params [OF one] by simp_all
  ultimately obtain m' where "run_steps m1 ds = Inr m'" using Cons.IH by blast
  with one show ?case by simp
qed


subsection \<open>The constructor\<close>

text \<open>The constructor checks nothing about the graph parameters itself: an error of the
  generator is the error of the constructor.\<close>

lemma SchoolModel_init_generator_error:
  "wsg N k p = Inl e \<Longrightarrow> SchoolModel_init wsg N k p b w v aid d = Inl e"
  by (simp add: SchoolModel_init_def)

lemma SchoolModel_init_fail:
  assumes g: "wsg N k p = Inr g" and n: "length (nodes g) = N"
    and short: "length (ses_distribution N) \<noteq> N"
  shows "SchoolModel_init wsg N k p b w v aid d = Inl IndexError"
proof -
  let ?m = "\<lparr>running = True, n_agents = N, steps = 0, base_dropout_rate = b,
             peer_influence_weight = w, performance_volatility = v,
             financial_aid_policy = aid, G = g, agents = [], model_vars = [],
             agent_records = []\<rparr>"
  from short length_ses_distribution_le [of N] have "length (ses_distribution N) < N" by simp
  then have "length (ses_distribution (n_agents ?m)) < length (nodes (G ?m))"
    using n by simp
  then have "make_agents ?m d = Inl IndexError" by (rule make_agents_fail)
  then show ?thesis using g by (simp add: SchoolModel_init_def)
qed

lemma SchoolModel_init_ok:
  assumes g: "wsg N k p = Inr g" and n: "length (nodes g) = N"
    and full: "length (ses_distribution N) = N"
  shows "SchoolModel_init wsg N k p b w v aid d =
     Inr \<lparr>running = True, n_agents = N, steps = 0, base_dropout_rate = b,
          peer_influence_weight = w, performance_volatility = v,
          financial_aid_policy = aid, G = g,
          agents = map (\<lambda>i. \<lparr>unique_id = i, pos = Some (nodes g ! i),
                               performance = np_clip (75 + 10 * initial_normal_draw d i) 50 95,
                               ses = shuffle (ses_shuffle_draw d) (ses_distribution N) ! i,
                               status = Attending\<rparr>) [0..<N],
          model_vars = [], agent_records = []\<rparr>"
proof -
  let ?m = "\<lparr>running = True, n_agents = N, steps = 0, base_dropout_rate = b,
             peer_influence_weight = w, performance_volatility = v,
             financial_aid_policy = aid, G = g, agents = [], model_vars = [],
             agent_records = []\<rparr>"
  let ?f = "\<lambda>p. place_agent
                 (StudentAgent_init (fst p)
                    (np_clip (75 + 10 * initial_normal_draw d (fst p)) 50 95)
                    (shuffle (ses_shuffle_draw d) (ses_distribution N) ! fst p))
                 (snd p)"
  have "length (nodes (G ?m)) \<le> length (ses_distribution (n_agents ?m))"
    using n full by simp
  from make_agents_ok [OF this, of d]
  have mk: "make_agents ?m d = Inr (?m\<lparr>agents := map ?f (zip [0..<N] (nodes g))\<rparr>)"
    using n by simp
  have "zip [0..<N] (nodes g) = map (\<lambda>i. (i, nodes g ! i)) [0..<N]"
    using n by (intro nth_equalityI) simp_all
  then have "map ?f (zip [0..<N] (nodes g)) =
      map (\<lambda>i. \<lparr>unique_id = i, pos = Some (nodes g ! i),
                  performance = np_clip (75 + 10 * initial_normal_draw d i) 50 95,
                  ses = shuffle (ses_shuffle_draw d) (ses_distribution N) ! i,
                  status = Attending\<rparr>) [0..<N]"
    by (simp add: place_agent_def StudentAgent_init_def o_def)
  with mk g show ?thesis by (simp add: SchoolModel_init_def setup_datacollector_def)
qed

lemma SchoolModel_init_placed:
  assumes init: "SchoolModel_init wsg N k p b w v aid d = Inr m"
    and g: "wsg N k p = Inr g" and n: "nodes g = [0..<N]"
    and closed: "list_all (\<lambda>v. list_all (\<lambda>w. w < N) (adj g v)) [0..<N]"
  shows "placed m"
proof -
  have len: "length (nodes g) = N" using n by simp
  have full: "length (ses_distribution N) = N"
  proof (rule ccontr)
    assume "length (ses_distribution N) \<noteq> N"
    from SchoolModel_init_fail [of wsg N k p g b w v aid d, OF g len this] init show False by simp
  qed
  from SchoolModel_init_ok [of wsg N k p g b w v aid d, OF g len full] init
  have m: "m = \<lparr>running = True, n_agents = N, steps = 0, base_dropout_rate = b,
          peer_influence_weight = w, performance_volatility = v,
          financial_aid_policy = aid, G = g,
          agents = map (\<lambda>i. \<lparr>unique_id = i, pos = Some (nodes g ! i),
                               performance = np_clip (75 + 10 * initial_normal_draw d i) 50 95,
                               ses = shuffle (ses_shuffle_draw d) (ses_distribution N) ! i,
                               status = Attending\<rparr>) [0..<N],
          model_vars = [], agent_records = []\<rparr>" by simp
  have "map (\<lambda>i. Some (nodes g ! i)) [0..<N] = map Some [0..<N]"
    unfolding n by (rule map_cong) simp_all
  then show ?thesis
    unfolding placed_def by (subst (1 2 3 4 5 6 7 8 9) m) (simp add: o_def n closed map_idI)
qed

subsection \<open>A sample school is built and well placed\<close>

lemma ring_graph_closed:
  "0 < N \<Longrightarrow> list_all (\<lambda>v. list_all (\<lambda>w. w < N) [(v + N - 1) mod N, (v + 1) mod N]) [0..<N]"
  by (simp add: list_all_iff)

lemma sample_school:
  assumes "0 < N" and "5 dvd N"
  shows "\<exists>m. SchoolModel_init ring_graph N k p b w v aid d = Inr m \<and> placed m
           \<and> n_agents m = N \<and> length (agents m) = N \<and> performance_volatility m = v
           \<and> steps m = 0 \<and> model_vars m = []
           \<and> base_dropout_rate m = b \<and> peer_influence_weight m = w
           \<and> financial_aid_policy m = aid"
proof -
  let ?g = "\<lparr>nodes = [0..<N], adj = (\<lambda>v. [(v + N - 1) mod N, (v + 1) mod N])\<rparr>"
  have g: "ring_graph N k p = Inr ?g" by (simp add: ring_graph_def)
  have len: "length (nodes ?g) = N" by simp
  have full: "length (ses_distribution N) = N" using assms(2) by (simp add: length_ses_distribution_eq)
  note ok = SchoolModel_init_ok [of ring_graph N k p ?g b w v aid d, OF g len full]
  have "placed (projr (SchoolModel_init ring_graph N k p b w v aid d))"
    by (rule SchoolModel_init_placed [of ring_graph N k p b w v aid d _ ?g])
       (use assms(1) in \<open>simp_all add: ok g list_all_iff\<close>)
  then show ?thesis by (simp add: ok)
qed

subsection \<open>What a successful construction returns\<close>

lemma SchoolModel_init_Inr:
  assumes "SchoolModel_init wsg N k p b w v aid d = Inr m"
  shows "\<exists>g. wsg N k p = Inr g
     \<and> length (nodes g) \<le> length (ses_distribution N)
     \<and> m = \<lparr>running = True, n_agents = N, steps = 0, base_dropout_rate = b,
             peer_influence_weight = w, performance_volatility = v,
             financial_aid_policy = aid, G = g,
             agents = map (\<lambda>q. place_agent
                 (StudentAgent_init (fst q)
                    (np_clip (75 + 10 * initial_normal_draw d (fst q)) 50 95)
                    (shuffle (ses_shuffle_draw d) (ses_distribution N) ! fst q))
                 (snd q)) (zip [0..<length (nodes g)] (nodes g)),
             model_vars = [], agent_records = []\<rparr>"
proof -
  from assms obtain g where g: "wsg N k p = Inr g"
    by (auto simp: SchoolModel_init_def split: sum.splits)
  let ?m = "\<lparr>running = True, n_agents = N, steps = 0, base_dropout_rate = b,
             peer_influence_weight = w, performance_volatility = v,
             financial_aid_policy = aid, G = g, agents = [], model_vars = [],
             agent_records = []\<rparr>"
  from assms g obtain m1 where mk: "make_agents ?m d = Inr m1"
    and m: "m = setup_datacollector m1"
    by (auto simp: SchoolModel_init_def split: sum.splits)
  have le: "length (nodes g) \<le> length (ses_distribution N)"
  proof (rule ccontr)
    assume "\<not> length (nodes g) \<le> length (ses_distribution N)"
    then have "length (ses_distribution (n_agents ?m)) < length (nodes (G ?m))" by simp
    from make_agents_fail [OF this, of d] mk show False by simp
  qed
  then have "length (nodes (G ?m)) \<le> length (ses_distribution (n_agents ?m))" by simp
  from make_agents_ok [OF this, of d] mk m
  have "m = \<lparr>running = True, n_agents = N, steps = 0, base_dropout_rate = b,
             peer_influence_weight = w, performance_volatility = v,
             financial_aid_policy = aid, G = g,
             agents = map (\<lambda>q. place_agent
                 (StudentAgent_init (fst q)
                    (np_clip (75 + 10 * initial_normal_draw d (fst q)) 50 95)
                    (shuffle (ses_shuffle_draw d) (ses_distribution N) ! fst q))
                 (snd q)) (zip [0..<length (nodes g)] (nodes g)),
             model_vars = [], agent_records = []\<rparr>"
    by (simp add: setup_datacollector_def)
  with g le show ?thesis by blast
qed

lemma SchoolModel_init_agent:
  assumes "SchoolModel_init wsg N k p b w v aid d = Inr m" and "i < length (agents m)"
  shows "agents m ! i =
     \<lparr>unique_id = i, pos = pos (agents m ! i),
      performance = np_clip (INITIAL_PERFORMANCE_MEAN
                      + INITIAL_PERFORMANCE_STD * initial_normal_draw d i) 50 95,
      ses = shuffle (ses_shuffle_draw d) (ses_distribution N) ! i,
      status = Attending\<rparr>"
proof -
  from SchoolModel_init_Inr [OF assms(1)] obtain g :: Graph where
    m: "agents m = map (\<lambda>q. place_agent
                 (StudentAgent_init (fst q)
                    (np_clip (75 + 10 * initial_normal_draw d (fst q)) 50 95)
                    (shuffle (ses_shuffle_draw d) (ses_distribution N) ! fst q))
                 (snd q)) (zip [0..<length (nodes g)] (nodes g))"
    by auto
  from assms(2) have i: "i < length (nodes g)" unfolding m by simp
  then show ?thesis unfolding m
    by (simp add: place_agent_def StudentAgent_init_def
          INITIAL_PERFORMANCE_MEAN_def INITIAL_PERFORMANCE_STD_def)
qed

lemma SchoolModel_init_fields:
  assumes "SchoolModel_init wsg N k p b w v aid d = Inr m"
  shows "n_agents m = N" and "steps m = 0" and "model_vars m = []"
    and "base_dropout_rate m = b" and "peer_influence_weight m = w"
    and "performance_volatility m = v" and "financial_aid_policy m = aid"
    and "wsg N k p = Inr (G m)" and "length (agents m) = length (nodes (G m))"
    and "length (agents m) \<le> length (ses_distribution N)"
proof -
  from SchoolModel_init_Inr [OF assms] obtain g where g: "wsg N k p = Inr g"
    and le: "length (nodes g) \<le> length (ses_distribution N)"
    and m: "m = \<lparr>running = True, n_agents = N, steps = 0, base_dropout_rate = b,
             peer_influence_weight = w, performance_volatility = v,
             financial_aid_policy = aid, G = g,
             agents = map (\<lambda>q. place_agent
                 (StudentAgent_init (fst q)
                    (np_clip (75 + 10 * initial_normal_draw d (fst q)) 50 95)
                    (shuffle (ses_shuffle_draw d) (ses_distribution N) ! fst q))
                 (snd q)) (zip [0..<length (nodes g)] (nodes g)),
             model_vars = [], agent_records = []\<rparr>"
    by blast
  show "n_agents m = N" by (subst m) simp
  show "steps m = 0" by (subst m) simp
  show "model_vars m = []" by (subst m) simp
  show "base_dropout_rate m = b" by (subst m) simp
  show "peer_influence_weight m = w" by (subst m) simp
  show "performance_volatility m = v" by (subst m) simp
  show "financial_aid_policy m = aid" by (subst m) simp
  show "wsg N k p = Inr (G m)" using g by (subst m) simp
  have Gm: "G m = g" by (subst m) simp
  have len: "length (agents m) = length (nodes g)" by (subst m) simp
  show "length (agents m) = length (nodes (G m))" unfolding Gm by (rule len)
  show "length (agents m) \<le> length (ses_distribution N)" using le unfolding len .
qed

subsection \<open>What a run keeps and counts\<close>


lemma run_steps_frame:
  "run_steps m ds = Inr m' \<Longrightarrow>
     n_agents m' = n_agents m \<and> length (agents m') = length (agents m) \<and> G m' = G m
   \<and> performance_volatility m' = performance_volatility m
   \<and> base_dropout_rate m' = base_dropout_rate m
   \<and> peer_influence_weight m' = peer_influence_weight m
   \<and> financial_aid_policy m' = financial_aid_policy m"
proof (induction ds arbitrary: m)
  case Nil
  then show ?case by simp
next
  case (Cons d ds)
  then obtain m1 where one: "SchoolModel_step m d = Inr m1"
    and rest: "run_steps m1 ds = Inr m'"
    by (auto split: sum.splits)
  have "length (agents m1) = length (agents m)"
    using SchoolModel_step_rel [where R = "\<lambda>a a'. True", OF _ _ _ one] by simp
  with SchoolModel_step_params [OF one] Cons.IH [OF rest] show ?case by simp
qed

lemma percentage_range:
  assumes "c \<le> n"
  shows "0 \<le> real c / real n * 100 \<and> real c / real n * 100 \<le> 100"
proof (cases "n = 0")
  case True
  then show ?thesis by simp
next
  case False
  with assms have "real c / real n \<le> 1" by simp
  then have "real c / real n * 100 \<le> 1 * 100" by (rule mult_right_mono) simp
  moreover have "0 \<le> real c / real n * 100" by simp
  ultimately show ?thesis by simp
qed

text \<open>Without agents the total rate divides by zero; the rate of a tier does not.\<close>

lemma get_dropout_rate_no_agents:
  "n_agents m = 0 \<Longrightarrow> get_dropout_rate m = Inl ZeroDivisionError"
  by (simp add: get_dropout_rate_def)

lemma peer_influence_score_nonneg:
  "peer_influence_score m neighbor_nodes = Inr score \<Longrightarrow> 0 \<le> score"
  by (auto simp: peer_influence_score_def split: if_splits sum.splits)

lemma performance_risk_nonneg: "0 \<le> performance_risk perf"
  by (simp add: performance_risk_def PERFORMANCE_THRESHOLD_def)

lemma SchoolModel_init_agent_range:
  assumes "SchoolModel_init wsg N k p b w v aid d = Inr m" and "i < length (agents m)"
  shows "performance (agents m ! i) =
           np_clip (INITIAL_PERFORMANCE_MEAN + INITIAL_PERFORMANCE_STD * initial_normal_draw d i)
             50 95
       \<and> 50 \<le> performance (agents m ! i) \<and> performance (agents m ! i) \<le> 95
       \<and> status (agents m ! i) = Attending"
proof -
  let ?x = "np_clip (INITIAL_PERFORMANCE_MEAN + INITIAL_PERFORMANCE_STD * initial_normal_draw d i)
             50 95"
  from SchoolModel_init_agent [OF assms]
  have "performance (agents m ! i) = ?x" and "status (agents m ! i) = Attending"
    by (metis StudentAgent.select_convs(3), metis StudentAgent.select_convs(5))
  moreover have "50 \<le> ?x \<and> ?x \<le> 95" by (rule np_clip_range) simp
  ultimately show ?thesis by simp
qed

subsection \<open>A trial reads the samples of its own agents only\<close>










text \<open>The samples matter: with the same parameters and the same graph, uniform samples
  of 0 make every agent drop out in the first pass, and uniform samples of 0.5 none.\<close>

lemma metrics_depend_on_samples:
  "map total_dropout_rate
     (metrics (case SchoolModel_init ring_graph 5 2 0 0.001 0.5 1.5 False sample_init of
                 Inl e \<Rightarrow> Inl e
               | Inr m \<Rightarrow> run_steps m [sample_step (\<lambda>i. 0), sample_step (\<lambda>i. 0)])) = [0, 100]
   \<and> map total_dropout_rate
     (metrics (case SchoolModel_init ring_graph 5 2 0 0.001 0.5 1.5 False sample_init of
                 Inl e \<Rightarrow> Inl e
               | Inr m \<Rightarrow> run_steps m [sample_step (\<lambda>i. 0.5), sample_step (\<lambda>i. 0.5)])) = [0, 0]"
  by code_simp

section \<open>The claims\<close>

text \<open>
  Claim C10. At construction every agent's performance is the normal sample with mean 75
  and standard deviation 10, clamped to \<open>[50, 95]\<close>: before the first step it lies in
  \<open>[50, 95]\<close>, and every agent starts with status Attending.
\<close>

theorem initial_population:
  assumes "SchoolModel_init wsg N k_degree rewiring_prob b w v aid d = Inr m"
    and "i < length (agents m)"
  shows "performance (agents m ! i) =
           np_clip (INITIAL_PERFORMANCE_MEAN + INITIAL_PERFORMANCE_STD * initial_normal_draw d i)
             50 95
       \<and> 50 \<le> performance (agents m ! i) \<and> performance (agents m ! i) \<le> 95
       \<and> status (agents m ! i) = Attending"
  using assms by (rule SchoolModel_init_agent_range)

theorem initial_population_witness:
  "\<exists>m. SchoolModel_init ring_graph 5 2 0 0.001 0.5 1.5 False sample_init = Inr m
     \<and> 0 < length (agents m)
     \<and> performance (agents m ! 0) =
           np_clip (INITIAL_PERFORMANCE_MEAN + INITIAL_PERFORMANCE_STD * initial_normal_draw sample_init 0)
             50 95
     \<and> 50 \<le> performance (agents m ! 0) \<and> performance (agents m ! 0) \<le> 95
     \<and> status (agents m ! 0) = Attending"
proof -
  from sample_school [of 5 2 0 "0.001" "0.5" "1.5" False sample_init]
  obtain m where m: "SchoolModel_init ring_graph 5 2 0 0.001 0.5 1.5 False sample_init = Inr m"
    and len: "length (agents m) = 5" by auto
  from len have i: "0 < length (agents m)" by simp
  from initial_population [OF m i] m i show ?thesis by blast
qed

text \<open>
  Claim C3. After the construction and after any number of steps, for any samples, the
  performance of every agent lies in \<open>[0, 100]\<close>.
\<close>

theorem performance_in_range:
  assumes "SchoolModel_init wsg N k_degree rewiring_prob b w v aid d = Inr m0"
    and "run_steps m0 ds = Inr m"
    and "a \<in> set (agents m)"
  shows "0 \<le> performance a \<and> performance a \<le> 100"
proof -
  let ?R = "\<lambda>a a'. (0 \<le> performance a \<and> performance a \<le> 100)
               \<longrightarrow> (0 \<le> performance a' \<and> performance a' \<le> 100)"
  have run: "length (agents m) = length (agents m0)
         \<and> (\<forall>i < length (agents m0). ?R (agents m0 ! i) (agents m ! i))"
    by (rule run_steps_rel [where R = ?R and ds = ds])
       (use StudentAgent_step_performance assms(2) in blast)+
  from assms(3) obtain i where i: "i < length (agents m)" and a: "a = agents m ! i"
    by (auto simp: in_set_conv_nth)
  from i run have i0: "i < length (agents m0)" by simp
  have "50 \<le> performance (agents m0 ! i) \<and> performance (agents m0 ! i) \<le> 95"
    using SchoolModel_init_agent_range [OF assms(1) i0] by simp
  then have "0 \<le> performance (agents m0 ! i) \<and> performance (agents m0 ! i) \<le> 100" by simp
  with run i0 show ?thesis unfolding a by blast
qed

theorem performance_in_range_witness:
  "\<exists>m0 m. SchoolModel_init ring_graph 5 2 0 0.001 0.5 1.5 False sample_init = Inr m0
     \<and> run_steps m0 [sample_step (\<lambda>i. 0), sample_step (\<lambda>i. 0.5)] = Inr m
     \<and> agents m ! 0 \<in> set (agents m)
     \<and> 0 \<le> performance (agents m ! 0) \<and> performance (agents m ! 0) \<le> 100"
proof -
  from sample_school [of 5 2 0 "0.001" "0.5" "1.5" False sample_init]
  obtain m0 where m0: "SchoolModel_init ring_graph 5 2 0 0.001 0.5 1.5 False sample_init = Inr m0"
    and pl: "placed m0" and n: "n_agents m0 = 5" and len: "length (agents m0) = 5"
    and vol: "performance_volatility m0 = 1.5" by auto
  from run_steps_total [OF pl, of "[sample_step (\<lambda>i. 0), sample_step (\<lambda>i. 0.5)]"] vol n
  obtain m where m: "run_steps m0 [sample_step (\<lambda>i. 0), sample_step (\<lambda>i. 0.5)] = Inr m" by auto
  have "length (agents m) = length (agents m0)"
    using run_steps_rel [where R = "\<lambda>a a'. True", OF _ _ _ m] by simp
  with len have mem: "agents m ! 0 \<in> set (agents m)" by simp
  from performance_in_range [OF m0 m mem] m0 m mem show ?thesis by blast
qed

text \<open>
  Claim C2. The status only moves from Attending to DroppedOut: an agent that has dropped
  out still has dropped out after any sequence of steps, with its performance unchanged,
  and its own step returns it as it is, whatever the model and the samples.
\<close>

theorem dropped_out_is_final:
  assumes "run_steps m ds = Inr m'"
    and "i < length (agents m)"
    and "status (agents m ! i) = DroppedOut"
  shows "status (agents m' ! i) = DroppedOut
       \<and> performance (agents m' ! i) = performance (agents m ! i)
       \<and> StudentAgent_step mm (agents m ! i) z u = Inr (agents m ! i)"
proof -
  let ?R = "\<lambda>a a'. status a = DroppedOut \<longrightarrow> a' = a"
  have step: "?R a a'" if "StudentAgent_step m a z u = Inr a'" for m a z u a'
    using that by (auto simp: StudentAgent_step_dropped)
  have "length (agents m') = length (agents m)
         \<and> (\<forall>i < length (agents m). ?R (agents m ! i) (agents m' ! i))"
    by (rule run_steps_rel [where R = ?R and ds = ds]) (use step assms(1) in blast)+
  with assms(2,3) have "agents m' ! i = agents m ! i" by blast
  with assms(3) show ?thesis by (simp add: StudentAgent_step_dropped)
qed

theorem dropped_out_is_final_witness:
  "\<exists>m m'. (case SchoolModel_init ring_graph 5 2 0 0.001 0.5 1.5 False sample_init of
             Inl e \<Rightarrow> Inl e | Inr m0 \<Rightarrow> run_steps m0 [sample_step (\<lambda>i. 0)]) = Inr m
     \<and> run_steps m [sample_step (\<lambda>i. 0.5), sample_step (\<lambda>i. 0)] = Inr m'
     \<and> 0 < length (agents m)
     \<and> status (agents m ! 0) = DroppedOut
     \<and> status (agents m' ! 0) = DroppedOut
     \<and> performance (agents m' ! 0) = performance (agents m ! 0)
     \<and> StudentAgent_step m' (agents m ! 0) 2 0 = Inr (agents m ! 0)"
proof -
  let ?r = "case SchoolModel_init ring_graph 5 2 0 0.001 0.5 1.5 False sample_init of
             Inl e \<Rightarrow> Inl e | Inr m0 \<Rightarrow> run_steps m0 [sample_step (\<lambda>i. 0)]"
  let ?m = "projr ?r"
  let ?m' = "projr (run_steps ?m [sample_step (\<lambda>i. 0.5), sample_step (\<lambda>i. 0)])"
  have "\<not> isl ?r" by code_simp
  then have m: "?r = Inr ?m" by simp
  have "\<not> isl (run_steps ?m [sample_step (\<lambda>i. 0.5), sample_step (\<lambda>i. 0)])" by code_simp
  then have m': "run_steps ?m [sample_step (\<lambda>i. 0.5), sample_step (\<lambda>i. 0)] = Inr ?m'" by simp
  have i: "0 < length (agents ?m)" by code_simp
  have s: "status (agents ?m ! 0) = DroppedOut" by code_simp
  from dropped_out_is_final [OF m' i s, where mm = ?m' and z = 2 and u = 0] m m' i s
  show ?thesis by blast
qed



text \<open>
  Claim C7. In every state a run reaches from a construction with \<open>N > 0\<close> agents, the
  total dropout rate is the number of DroppedOut agents divided by \<open>N\<close>, times 100; the
  rate of a tier is 0 when the tier is empty and otherwise the percentage of the tier's
  agents that are DroppedOut; both lie in \<open>[0, 100]\<close>. The accessors are functions of the
  model that return a number only: they have no state to change.
\<close>

theorem dropout_rate_accessors:
  assumes "wsg N k_degree rewiring_prob = Inr g" and "length (nodes g) = N" and "0 < N"
    and "SchoolModel_init wsg N k_degree rewiring_prob b w v aid d = Inr m0"
    and "run_steps m0 ds = Inr m"
  shows "get_dropout_rate m =
           Inr (real (length (filter (\<lambda>a. status a = DroppedOut) (agents m))) / real N * 100)
       \<and> length (agents m) = N
       \<and> 0 \<le> real (length (filter (\<lambda>a. status a = DroppedOut) (agents m))) / real N * 100
       \<and> real (length (filter (\<lambda>a. status a = DroppedOut) (agents m))) / real N * 100 \<le> 100
       \<and> get_dropout_by_ses m ses_level =
           (if filter (\<lambda>a. ses a = ses_level) (agents m) = [] then 0
            else real (length (filter (\<lambda>a. status a = DroppedOut)
                                 (filter (\<lambda>a. ses a = ses_level) (agents m))))
                 / real (length (filter (\<lambda>a. ses a = ses_level) (agents m))) * 100)
       \<and> 0 \<le> get_dropout_by_ses m ses_level \<and> get_dropout_by_ses m ses_level \<le> 100"
proof -
  note f = SchoolModel_init_fields [OF assms(4)]
  from f(8) assms(1) have "G m0 = g" by simp
  with f(9) assms(2) have "length (agents m0) = N" by simp
  with run_steps_frame [OF assms(5)] f(1)
  have n: "n_agents m = N" and len: "length (agents m) = N" by simp_all
  have d: "is_dropped_out = (\<lambda>a. status a = DroppedOut)"
    by (rule ext) (simp add: is_dropped_out_def)
  have total: "get_dropout_rate m =
      Inr (real (length (filter (\<lambda>a. status a = DroppedOut) (agents m))) / real N * 100)"
    using assms(3) by (simp add: get_dropout_rate_def n d)
  have "length (filter (\<lambda>a. status a = DroppedOut) (agents m)) \<le> N"
    using length_filter_le [of _ "agents m"] len by simp
  note total_range = percentage_range [OF this]
  have by_ses: "get_dropout_by_ses m ses_level =
           (if filter (\<lambda>a. ses a = ses_level) (agents m) = [] then 0
            else real (length (filter (\<lambda>a. status a = DroppedOut)
                                 (filter (\<lambda>a. ses a = ses_level) (agents m))))
                 / real (length (filter (\<lambda>a. ses a = ses_level) (agents m))) * 100)"
    by (simp add: get_dropout_by_ses_def d Let_def)
  have "0 \<le> get_dropout_by_ses m ses_level \<and> get_dropout_by_ses m ses_level \<le> 100"
    unfolding by_ses
    using percentage_range [OF length_filter_le [of "\<lambda>a. status a = DroppedOut"
        "filter (\<lambda>a. ses a = ses_level) (agents m)"]]
    by simp
  with total len total_range by_ses show ?thesis by blast
qed

theorem dropout_rate_accessors_witness:
  "\<exists>g m0 m. ring_graph 5 2 0 = Inr g \<and> length (nodes g) = 5 \<and> (0::nat) < 5
     \<and> SchoolModel_init ring_graph 5 2 0 0.001 0.5 1.5 False sample_init = Inr m0
     \<and> run_steps m0 [sample_step (\<lambda>i. 0)] = Inr m
     \<and> get_dropout_rate m =
           Inr (real (length (filter (\<lambda>a. status a = DroppedOut) (agents m))) / real 5 * 100)
     \<and> length (agents m) = 5
     \<and> 0 \<le> get_dropout_by_ses m LOW_SES \<and> get_dropout_by_ses m LOW_SES \<le> 100"
proof -
  let ?g = "\<lparr>nodes = [0..<5], adj = (\<lambda>v. [(v + 5 - 1) mod 5, (v + 1) mod 5])\<rparr>"
  have g: "ring_graph 5 2 0 = Inr ?g" by (simp add: ring_graph_def)
  have len: "length (nodes ?g) = 5" by simp
  from sample_school [of 5 2 0 "0.001" "0.5" "1.5" False sample_init]
  obtain m0 where m0: "SchoolModel_init ring_graph 5 2 0 0.001 0.5 1.5 False sample_init = Inr m0"
    and pl: "placed m0" and n: "n_agents m0 = 5"
    and vol: "performance_volatility m0 = 1.5" by auto
  from run_steps_total [OF pl, of "[sample_step (\<lambda>i. 0)]"] vol n
  obtain m where m: "run_steps m0 [sample_step (\<lambda>i. 0)] = Inr m" by auto
  from dropout_rate_accessors [of ring_graph 5 2 0 ?g "0.001" "0.5" "1.5" False sample_init
      m0 "[sample_step (\<lambda>i. 0)]" m LOW_SES, OF g len _ m0 m] g len m0 m
  show ?thesis by (intro exI [of _ ?g] exI [of _ m0] exI [of _ m]) simp
qed

text \<open>
  Claim C8. With a base rate that is not negative, a peer weight in \<open>[0, 1]\<close> and the peer
  influence the code computes, the probability after the intervention under
  \<^verbatim>\<open>financial_aid_policy=True\<close> is at most the one under \<^verbatim>\<open>financial_aid_policy=False\<close>,
  all else equal. The aid branch multiplies by \<open>1 - 0.4\<close> and is taken only for the Low
  tier; without the policy the probability is unchanged.
\<close>

theorem financial_aid_never_increases:
  assumes "0 \<le> base_dropout_rate m"
    and "0 \<le> peer_influence_weight m" and "peer_influence_weight m \<le> 1"
    and "peer_influence_score m neighbor_nodes = Inr score"
    and "p = p_drop m (performance_risk perf) score"
  shows "apply_intervention (m\<lparr>financial_aid_policy := True\<rparr>) self p
           \<le> apply_intervention (m\<lparr>financial_aid_policy := False\<rparr>) self p
       \<and> apply_intervention (m\<lparr>financial_aid_policy := False\<rparr>) self p = p
       \<and> apply_intervention (m\<lparr>financial_aid_policy := True\<rparr>) self p =
           (if ses self = LOW_SES then p * (1 - 0.4) else p)"
proof -
  have "0 \<le> performance_risk perf * (1 - peer_influence_weight m)"
    using performance_risk_nonneg assms(3) by simp
  moreover have "0 \<le> score * peer_influence_weight m"
    using peer_influence_score_nonneg [OF assms(4)] assms(2) by simp
  ultimately have "0 \<le> p" using assms(1) unfolding assms(5) p_drop_def by linarith
  then show ?thesis
    by (simp add: apply_intervention_def FINANCIAL_AID_EFFECTIVENESS_def)
qed

theorem financial_aid_never_increases_witness:
  "\<exists>m. SchoolModel_init ring_graph 5 2 0 0.001 0.5 1.5 True sample_init = Inr m
     \<and> 0 \<le> base_dropout_rate m
     \<and> 0 \<le> peer_influence_weight m \<and> peer_influence_weight m \<le> 1
     \<and> peer_influence_score m [4, 1] = Inr 0
     \<and> ses (agents m ! 0) = LOW_SES
     \<and> apply_intervention (m\<lparr>financial_aid_policy := True\<rparr>) (agents m ! 0)
           (p_drop m (performance_risk 45) 0)
         \<le> apply_intervention (m\<lparr>financial_aid_policy := False\<rparr>) (agents m ! 0)
           (p_drop m (performance_risk 45) 0)
     \<and> apply_intervention (m\<lparr>financial_aid_policy := True\<rparr>) (agents m ! 0)
           (p_drop m (performance_risk 45) 0) = p_drop m (performance_risk 45) 0 * (1 - 0.4)"
proof -
  let ?r = "SchoolModel_init ring_graph 5 2 0 0.001 0.5 1.5 True sample_init"
  let ?m = "projr ?r"
  have "\<not> isl ?r" by code_simp
  then have m: "?r = Inr ?m" by simp
  have b: "0 \<le> base_dropout_rate ?m" by code_simp
  have w0: "0 \<le> peer_influence_weight ?m" by code_simp
  have w1: "peer_influence_weight ?m \<le> 1" by code_simp
  have s: "peer_influence_score ?m [4, 1] = Inr 0" by code_simp
  have low: "ses (agents ?m ! 0) = LOW_SES" by code_simp
  from financial_aid_never_increases [OF b w0 w1 s refl, where perf = 45 and self = "agents ?m ! 0"] m b w0 w1 s low
  show ?thesis by (intro exI [of _ ?m]) simp
qed

text \<open>
  Claim C4. When the truncated tier counts \<open>int(N * 0.4) + int(N * 0.4) + int(N * 0.2)\<close>
  do not sum to \<open>N\<close>, that is when \<open>N\<close> is no multiple of 5, the construction fails: the
  loop of \<^verbatim>\<open>make_agents\<close> raises \<^verbatim>\<open>IndexError\<close> at the first agent that has no tier. When
  they do sum to \<open>N\<close> the construction returns a model with \<open>N\<close> agents whose tiers are
  the shuffled tier list, a permutation of the 40% Low, 40% Medium and 20% High of the
  list. No agent is ever left out silently. The generator is taken to
  return a graph with \<open>N\<close> nodes.
\<close>

theorem tier_counts_must_sum:
  assumes "wsg N k_degree rewiring_prob = Inr g" and "length (nodes g) = N"
  shows "(nat (py_int (real N * 0.4)) + nat (py_int (real N * 0.4)) + nat (py_int (real N * 0.2)) \<noteq> N
          \<longrightarrow> SchoolModel_init wsg N k_degree rewiring_prob b w v aid d = Inl IndexError)
       \<and> (nat (py_int (real N * 0.4)) + nat (py_int (real N * 0.4)) + nat (py_int (real N * 0.2)) = N
          \<longrightarrow> (\<exists>m. SchoolModel_init wsg N k_degree rewiring_prob b w v aid d = Inr m
                  \<and> length (agents m) = N
                  \<and> map ses (agents m) = shuffle (ses_shuffle_draw d) (ses_distribution N)
                  \<and> mset (map ses (agents m)) = mset (ses_distribution N)))
       \<and> ((nat (py_int (real N * 0.4)) + nat (py_int (real N * 0.4)) + nat (py_int (real N * 0.2)) = N)
            = (5 dvd N))"
proof -
  let ?sum = "nat (py_int (real N * 0.4)) + nat (py_int (real N * 0.4)) + nat (py_int (real N * 0.2))"
  let ?sh = "shuffle (ses_shuffle_draw d) (ses_distribution N)"
  have sum: "length (ses_distribution N) = ?sum" by (simp add: ses_distribution_def)
  have fail: "SchoolModel_init wsg N k_degree rewiring_prob b w v aid d = Inl IndexError"
    if "?sum \<noteq> N"
    using SchoolModel_init_fail [of wsg N k_degree rewiring_prob g b w v aid d, OF assms] that
    unfolding sum by simp
  have ok: "\<exists>m. SchoolModel_init wsg N k_degree rewiring_prob b w v aid d = Inr m
                  \<and> length (agents m) = N \<and> map ses (agents m) = ?sh
                  \<and> mset (map ses (agents m)) = mset (ses_distribution N)"
    if "?sum = N"
  proof -
    from that have full: "length (ses_distribution N) = N" unfolding sum .
    have "map (\<lambda>i. ?sh ! i) [0..<N] = ?sh"
      using map_nth [of ?sh] by (simp add: length_shuffle full)
    then have "\<exists>m. SchoolModel_init wsg N k_degree rewiring_prob b w v aid d = Inr m
                  \<and> length (agents m) = N \<and> map ses (agents m) = ?sh"
      unfolding SchoolModel_init_ok [of wsg N k_degree rewiring_prob g b w v aid d, OF assms full]
      by (simp add: o_def)
    then obtain m where m: "SchoolModel_init wsg N k_degree rewiring_prob b w v aid d = Inr m"
      "length (agents m) = N" "map ses (agents m) = ?sh" by blast
    from m(3) have "mset (map ses (agents m)) = mset (ses_distribution N)"
      by (simp only: mset_shuffle)
    with m show ?thesis by blast
  qed
  have "(?sum = N) = (5 dvd N)" using length_ses_distribution_eq [of N] unfolding sum .
  with fail ok show ?thesis by blast
qed

theorem tier_counts_must_sum_witness:
  "(\<exists>g. ring_graph 3 2 0 = Inr g \<and> length (nodes g) = 3
        \<and> SchoolModel_init ring_graph 3 2 0 0.001 0.5 1.5 False sample_init = Inl IndexError)
   \<and> (\<exists>g m. ring_graph 5 2 0 = Inr g \<and> length (nodes g) = 5
        \<and> SchoolModel_init ring_graph 5 2 0 0.001 0.5 1.5 False sample_init = Inr m
        \<and> length (agents m) = 5
        \<and> map ses (agents m) = shuffle (ses_shuffle_draw sample_init) (ses_distribution 5)
        \<and> mset (map ses (agents m)) = mset (ses_distribution 5))"
proof -
  let ?g3 = "\<lparr>nodes = [0..<3], adj = (\<lambda>v. [(v + 3 - 1) mod 3, (v + 1) mod 3])\<rparr>"
  let ?g5 = "\<lparr>nodes = [0..<5], adj = (\<lambda>v. [(v + 5 - 1) mod 5, (v + 1) mod 5])\<rparr>"
  have g3: "ring_graph 3 2 0 = Inr ?g3" and g5: "ring_graph 5 2 0 = Inr ?g5"
    by (simp_all add: ring_graph_def)
  have l3: "length (nodes ?g3) = 3" and l5: "length (nodes ?g5) = 5" by simp_all
  note t3 = tier_counts_must_sum [of ring_graph 3 2 0 ?g3 "0.001" "0.5" "1.5" False sample_init,
      OF g3 l3]
  note t5 = tier_counts_must_sum [of ring_graph 5 2 0 ?g5 "0.001" "0.5" "1.5" False sample_init,
      OF g5 l5]
  have "\<not> (5::nat) dvd 3" by simp
  with t3 have a: "SchoolModel_init ring_graph 3 2 0 0.001 0.5 1.5 False sample_init = Inl IndexError"
    by blast
  have "(5::nat) dvd 5" by simp
  with t5 obtain m where
    b: "SchoolModel_init ring_graph 5 2 0 0.001 0.5 1.5 False sample_init = Inr m"
       "length (agents m) = 5"
       "map ses (agents m) = shuffle (ses_shuffle_draw sample_init) (ses_distribution 5)"
       "mset (map ses (agents m)) = mset (ses_distribution 5)"
    by blast
  from a g3 l3 have "\<exists>g. ring_graph 3 2 0 = Inr g \<and> length (nodes g) = 3
        \<and> SchoolModel_init ring_graph 3 2 0 0.001 0.5 1.5 False sample_init = Inl IndexError"
    by blast
  moreover from b g5 l5 have "\<exists>g m. ring_graph 5 2 0 = Inr g \<and> length (nodes g) = 5
        \<and> SchoolModel_init ring_graph 5 2 0 0.001 0.5 1.5 False sample_init = Inr m
        \<and> length (agents m) = 5
        \<and> map ses (agents m) = shuffle (ses_shuffle_draw sample_init) (ses_distribution 5)
        \<and> mset (map ses (agents m)) = mset (ses_distribution 5)"
    by blast
  ultimately show ?thesis by blast
qed

text \<open>
  Claim C1. For an Attending agent, a step computes the dropout probability
  \<open>p = base_dropout_rate + risk * (1 - peer_influence_weight) + peer_influence *
  peer_influence_weight\<close>, where \<open>risk = max 0 (60 - performance) / 60\<close> is taken at
  the performance after the fluctuation, and \<open>peer_influence\<close> is 0 for an agent with no
  neighbours and otherwise the number of DroppedOut neighbours divided by the number of
  neighbours. The value is compared with the uniform sample as it is, with no clamping
  to \<open>[0, 1]\<close> (for a Low-SES agent under the aid policy after the discount of claim
  C8). In a well-placed population with a volatility that is not negative the step
  returns. The states a run reaches from a construction over a graph on the nodes
  \<open>0, \<dots>, N - 1\<close> are well placed (\<open>SchoolModel_init_placed\<close>, \<open>run_steps_placed\<close>).
\<close>

theorem dropout_probability:
  assumes "placed m" and "i < length (agents m)"
    and "status (agents m ! i) = Attending"
    and "0 \<le> performance_volatility m"
  shows "let perf = np_clip (performance (agents m ! i) + performance_volatility m * z) 0 100;
             neighbors = adj (G m) i;
             peer_influence =
               (if neighbors = [] then 0
                else real (length (filter (\<lambda>v. status (agents m ! v) = DroppedOut) neighbors))
                     / real (length neighbors));
             risk = max 0 (60 - perf) / 60;
             p = base_dropout_rate m + risk * (1 - peer_influence_weight m)
                   + peer_influence * peer_influence_weight m
         in \<exists>a. StudentAgent_step m (agents m ! i) z u = Inr a
              \<and> performance a = perf
              \<and> (status a = DroppedOut) =
                  (u < (if financial_aid_policy m \<and> ses (agents m ! i) = LOW_SES
                        then p * (1 - 0.4) else p))"
proof -
  from assms(3) have att: "status (agents m ! i) \<noteq> DroppedOut" by simp
  show ?thesis
    unfolding StudentAgent_step_placed [OF assms(1,2,4) att]
    by (simp add: Let_def apply_intervention_def p_drop_def performance_risk_def
          PERFORMANCE_THRESHOLD_def FINANCIAL_AID_EFFECTIVENESS_def assms(3))
qed

theorem dropout_probability_witness:
  "\<exists>m. (case SchoolModel_init ring_graph 5 2 0 0.001 0.5 1.5 False sample_init of
          Inl e \<Rightarrow> Inl e
        | Inr m0 \<Rightarrow> run_steps m0 [sample_step (\<lambda>i. if i = 1 then 0 else 0.5)]) = Inr m
     \<and> placed m \<and> 0 < length (agents m) \<and> status (agents m ! 0) = Attending
     \<and> 0 \<le> performance_volatility m
     \<and> adj (G m) 0 = [4, 1] \<and> status (agents m ! 4) = Attending
     \<and> status (agents m ! 1) = DroppedOut
     \<and> (let perf = np_clip (performance (agents m ! 0) + performance_volatility m * (- 20)) 0 100;
             neighbors = adj (G m) 0;
             peer_influence =
               (if neighbors = [] then 0
                else real (length (filter (\<lambda>v. status (agents m ! v) = DroppedOut) neighbors))
                     / real (length neighbors));
             risk = max 0 (60 - perf) / 60;
             p = base_dropout_rate m + risk * (1 - peer_influence_weight m)
                   + peer_influence * peer_influence_weight m
         in \<exists>a. StudentAgent_step m (agents m ! 0) (- 20) 0.3 = Inr a
              \<and> performance a = perf
              \<and> (status a = DroppedOut) =
                  (0.3 < (if financial_aid_policy m \<and> ses (agents m ! 0) = LOW_SES
                        then p * (1 - 0.4) else p)))
     \<and> StudentAgent_step m (agents m ! 0) (- 20) 0.3 =
         Inr ((agents m ! 0)\<lparr>performance := 45, status := DroppedOut\<rparr>)"
proof -
  let ?r = "case SchoolModel_init ring_graph 5 2 0 0.001 0.5 1.5 False sample_init of
          Inl e \<Rightarrow> Inl e
        | Inr m0 \<Rightarrow> run_steps m0 [sample_step (\<lambda>i. if i = 1 then 0 else 0.5)]"
  let ?m = "projr ?r"
  have "\<not> isl ?r" by code_simp
  then have r: "?r = Inr ?m" by simp
  have pl: "placed ?m" by code_simp
  have i: "0 < length (agents ?m)" by code_simp
  have att: "status (agents ?m ! 0) = Attending" by code_simp
  have vol: "0 \<le> performance_volatility ?m" by code_simp
  have nb: "adj (G ?m) 0 = [4, 1]" by code_simp
  have s4: "status (agents ?m ! 4) = Attending" by code_simp
  have s1: "status (agents ?m ! 1) = DroppedOut" by code_simp
  have st: "StudentAgent_step ?m (agents ?m ! 0) (- 20) 0.3 =
         Inr ((agents ?m ! 0)\<lparr>performance := 45, status := DroppedOut\<rparr>)" by code_simp
  from dropout_probability [OF pl i att vol, where z = "- 20" and u = "0.3"] r pl i att vol nb s4 s1 st
  show ?thesis by (intro exI [of _ ?m] conjI)
qed



end
